theory Spec2Isabelle
  imports Complex_Main "HOL-Library.Multiset"
begin

section \<open>Session configuration constants\<close>

definition GAME_DURATION_SECONDS :: int where
  "GAME_DURATION_SECONDS = 3600"

definition MIN_PLAYERS :: nat where
  "MIN_PLAYERS = 3"

definition MAX_PLAYERS :: nat where
  "MAX_PLAYERS = 5"

section \<open>Type definitions\<close>

text \<open>
  The interfaces of \<^verbatim>\<open>index.tsx\<close>. Record fields are global constants in HOL, so the
  fields \<^verbatim>\<open>id\<close>, \<^verbatim>\<open>x\<close>, \<^verbatim>\<open>y\<close>, \<^verbatim>\<open>width\<close> and \<^verbatim>\<open>height\<close> carry the name of their
  interface as a prefix. JavaScript numbers that hold cell coordinates, streaks and
  timestamps are integers here; pointer displacements are reals.
\<close>

record Player =
  player_id :: string
  streak :: int

text \<open>
  \<^verbatim>\<open>Players = Record<string, Player>\<close>: the own properties of the object. Identifiers
  that name a property of \<^verbatim>\<open>Object.prototype\<close> are outside this model.
\<close>

type_synonym Players = "string \<rightharpoonup> Player"

record Piece =
  piece_id :: int
  piece_x :: int
  piece_y :: int
  piece_width :: int
  piece_height :: int
  isGoal :: bool

record Puzzle =
  boardWidth :: int
  boardHeight :: int
  pieces :: "Piece list"
  goalPosition :: "int \<times> int"

datatype View = Lobby | Game | Timesup | Win

record SharedGameState =
  view :: View
  team :: "string list"
  puzzle :: "Puzzle option"
  gameStartTime :: "int option"

section \<open>Board model: \<^verbatim>\<open>isOccupied\<close>\<close>

text \<open>
  The rectangle test of \<^verbatim>\<open>isOccupied\<close>:
  \<^verbatim>\<open>!(x + w <= p.x || x >= p.x + p.width || y + h <= p.y || y >= p.y + p.height)\<close>.
\<close>

definition rectOverlaps :: "int \<Rightarrow> int \<Rightarrow> int \<Rightarrow> int \<Rightarrow> Piece \<Rightarrow> bool" where
  "rectOverlaps x y w h p =
     (\<not> (x + w \<le> piece_x p \<or> x \<ge> piece_x p + piece_width p \<or>
         y + h \<le> piece_y p \<or> y \<ge> piece_y p + piece_height p))"

text \<open>The \<^verbatim>\<open>for (const p of puzzle.pieces)\<close> loop of \<^verbatim>\<open>isOccupied\<close>.\<close>

fun occupiedBy :: "Piece list \<Rightarrow> int \<Rightarrow> int \<Rightarrow> int \<Rightarrow> int \<Rightarrow> int \<Rightarrow> bool" where
  "occupiedBy [] x y w h excludeId = False"
| "occupiedBy (p # ps) x y w h excludeId =
     (if piece_id p = excludeId then occupiedBy ps x y w h excludeId
      else if rectOverlaps x y w h p then True
      else occupiedBy ps x y w h excludeId)"

definition isOccupied :: "Puzzle \<Rightarrow> int \<Rightarrow> int \<Rightarrow> int \<Rightarrow> int \<Rightarrow> int \<Rightarrow> bool" where
  "isOccupied pz x y w h excludeId =
     (if x < 0 \<or> y < 0 \<or> x + w > boardWidth pz \<or> y + h > boardHeight pz then True
      else occupiedBy (pieces pz) x y w h excludeId)"

section \<open>Move resolver: \<^verbatim>\<open>handleDragEnd\<close>\<close>

text \<open>
  The two scanning loops of \<^verbatim>\<open>handleDragEnd\<close> have the same shape,
  \<^verbatim>\<open>for (let i = 1; i <= Math.abs(d); i++) { const next = start + i * dir;
     if (!isOccupied(...next...)) { final = next; } else break; }\<close>,
  and differ only in the coordinate that \<^verbatim>\<open>next\<close> replaces. \<open>slide\<close> is that loop,
  entered with the loop variable \<open>i\<close> and the current value of \<open>final\<close>; the test on the
  candidate coordinate is its first argument.
\<close>

function slide :: "(int \<Rightarrow> bool) \<Rightarrow> int \<Rightarrow> int \<Rightarrow> int \<Rightarrow> int \<Rightarrow> int \<Rightarrow> int" where
  "slide occupied start dir n i final =
     (if i \<le> n then
        (let next = start + i * dir in
         if \<not> occupied next then slide occupied start dir n (i + 1) next else final)
      else final)"
  by pat_completeness auto
termination
  by (relation "measure (\<lambda>(occupied, start, dir, n, i, final). nat (n + 1 - i))") auto

declare slide.simps [simp del]

text \<open>
  Lines 532 to 554 of \<^verbatim>\<open>handleDragEnd\<close>: from the rounded target cell to
  \<^verbatim>\<open>(finalX, finalY)\<close>. \<^verbatim>\<open>Math.sign\<close> is \<open>sgn\<close> and \<^verbatim>\<open>Math.abs\<close> is \<open>abs\<close>.
\<close>

definition resolveMove :: "Puzzle \<Rightarrow> Piece \<Rightarrow> int \<Rightarrow> int \<Rightarrow> int \<times> int" where
  "resolveMove pz piece targetX targetY =
     (let dx = targetX - piece_x piece;
          dy = targetY - piece_y piece
      in if \<bar>dx\<bar> > \<bar>dy\<bar> then
           (slide (\<lambda>nextX. isOccupied pz nextX (piece_y piece)
                      (piece_width piece) (piece_height piece) (piece_id piece))
                  (piece_x piece) (sgn dx) \<bar>dx\<bar> 1 (piece_x piece),
            piece_y piece)
         else
           (piece_x piece,
            slide (\<lambda>nextY. isOccupied pz (piece_x piece) nextY
                      (piece_width piece) (piece_height piece) (piece_id piece))
                  (piece_y piece) (sgn dy) \<bar>dy\<bar> 1 (piece_y piece)))"

text \<open>\<^verbatim>\<open>Math.round\<close> on a real: the nearest integer, a half rounding up.\<close>

definition Math_round :: "real \<Rightarrow> int" where
  "Math_round r = \<lfloor>r + 1 / 2\<rfloor>"

text \<open>
  The \<^verbatim>\<open>dragging\<close> state that \<^verbatim>\<open>handleDragStart\<close> stores. The pointer coordinates
  \<^verbatim>\<open>startX\<close>, \<^verbatim>\<open>startY\<close> only enter \<^verbatim>\<open>handleDragEnd\<close> through
  \<^verbatim>\<open>deltaX = (clientX - startX) / (100 * scale)\<close> and \<^verbatim>\<open>deltaY\<close>, which are arguments here.
\<close>

record Dragging =
  dragging_id :: int
  pieceStartX :: int
  pieceStartY :: int

text \<open>
  What \<^verbatim>\<open>handleDragEnd\<close> does with the resolved position: \<open>DragError\<close> is the
  \<^verbatim>\<open>TypeError\<close> raised on \<^verbatim>\<open>piece.x\<close> when \<^verbatim>\<open>find\<close> returns \<^verbatim>\<open>undefined\<close>,
  \<open>SnapBack\<close> the branch that restores the piece visually, \<open>PuzzleChanged\<close> the call
  \<^verbatim>\<open>onPuzzleChange({ ...puzzle, pieces: newPieces })\<close>.
\<close>

datatype DragResult = DragError | SnapBack | PuzzleChanged Puzzle

definition dragTarget :: "Dragging \<Rightarrow> real \<Rightarrow> real \<Rightarrow> int \<times> int" where
  "dragTarget dragging deltaX deltaY =
     (Math_round (real_of_int (pieceStartX dragging) + deltaX),
      Math_round (real_of_int (pieceStartY dragging) + deltaY))"

definition handleDragEnd :: "Puzzle \<Rightarrow> Dragging \<Rightarrow> real \<Rightarrow> real \<Rightarrow> DragResult" where
  "handleDragEnd pz dragging deltaX deltaY =
     (case find (\<lambda>p. piece_id p = dragging_id dragging) (pieces pz) of
        None \<Rightarrow> DragError
      | Some piece \<Rightarrow>
          (let (targetX, targetY) = dragTarget dragging deltaX deltaY;
               (finalX, finalY) = resolveMove pz piece targetX targetY
           in if finalX \<noteq> piece_x piece \<or> finalY \<noteq> piece_y piece then
                PuzzleChanged (pz\<lparr>pieces :=
                  map (\<lambda>p. if piece_id p = dragging_id dragging
                            then p\<lparr>piece_x := finalX, piece_y := finalY\<rparr> else p)
                      (pieces pz)\<rparr>)
              else SnapBack))"

section \<open>Win check: \<^verbatim>\<open>checkWinCondition\<close>\<close>

text \<open>
  The condition under which \<^verbatim>\<open>checkWinCondition\<close> calls \<^verbatim>\<open>onWin\<close>:
  \<^verbatim>\<open>goalPiece && goalPiece.x === puzzle.goalPosition.x && goalPiece.y === puzzle.goalPosition.y\<close>
  with \<^verbatim>\<open>goalPiece = puzzle.pieces.find(p => p.isGoal)\<close>.
\<close>

definition checkWinCondition :: "Puzzle \<Rightarrow> bool" where
  "checkWinCondition pz =
     (case find isGoal (pieces pz) of
        None \<Rightarrow> False
      | Some goalPiece \<Rightarrow>
          piece_x goalPiece = fst (goalPosition pz) \<and> piece_y goalPiece = snd (goalPosition pz))"

section \<open>Puzzle generation and its fallback\<close>

text \<open>The puzzle returned from the \<^verbatim>\<open>catch\<close> branch of \<^verbatim>\<open>generatePuzzle\<close>.\<close>

definition fallbackPuzzle :: Puzzle where
  "fallbackPuzzle =
     \<lparr>boardWidth = 4, boardHeight = 5,
      pieces =
        [\<lparr>piece_id = 1, piece_x = 1, piece_y = 0, piece_width = 2, piece_height = 2, isGoal = True\<rparr>,
         \<lparr>piece_id = 2, piece_x = 0, piece_y = 0, piece_width = 1, piece_height = 2, isGoal = False\<rparr>,
         \<lparr>piece_id = 3, piece_x = 3, piece_y = 0, piece_width = 1, piece_height = 2, isGoal = False\<rparr>,
         \<lparr>piece_id = 4, piece_x = 0, piece_y = 2, piece_width = 1, piece_height = 2, isGoal = False\<rparr>,
         \<lparr>piece_id = 5, piece_x = 3, piece_y = 2, piece_width = 1, piece_height = 2, isGoal = False\<rparr>,
         \<lparr>piece_id = 6, piece_x = 1, piece_y = 2, piece_width = 2, piece_height = 1, isGoal = False\<rparr>,
         \<lparr>piece_id = 7, piece_x = 1, piece_y = 3, piece_width = 1, piece_height = 1, isGoal = False\<rparr>,
         \<lparr>piece_id = 8, piece_x = 2, piece_y = 3, piece_width = 1, piece_height = 1, isGoal = False\<rparr>,
         \<lparr>piece_id = 9, piece_x = 0, piece_y = 4, piece_width = 1, piece_height = 1, isGoal = False\<rparr>,
         \<lparr>piece_id = 10, piece_x = 3, piece_y = 4, piece_width = 1, piece_height = 1, isGoal = False\<rparr>],
      goalPosition = (1, 3)\<rparr>"

text \<open>
  The outcome of the request to the external model inside \<^verbatim>\<open>generatePuzzle\<close>: an
  exception anywhere in the \<^verbatim>\<open>try\<close> block, or the value of \<^verbatim>\<open>JSON.parse(response.text)\<close>,
  which the code casts to \<^verbatim>\<open>Puzzle\<close> unchecked and which may be \<^verbatim>\<open>null\<close>.
\<close>

datatype Generated = GenerationFailed | Parsed "Puzzle option"

definition generatePuzzle :: "Generated \<Rightarrow> Puzzle option" where
  "generatePuzzle g = (case g of GenerationFailed \<Rightarrow> Some fallbackPuzzle | Parsed r \<Rightarrow> r)"

section \<open>Layout predicates of the board model\<close>

text \<open>
  The code never validates a puzzle; these predicates state the invariants the
  specification gives a layout: every piece within the board, no two pieces overlapping
  (by the rectangle test of \<^verbatim>\<open>isOccupied\<close>), and the cells a piece covers.
\<close>

definition inBounds :: "Puzzle \<Rightarrow> Piece \<Rightarrow> bool" where
  "inBounds pz p =
     (0 \<le> piece_x p \<and> 0 \<le> piece_y p \<and>
      piece_x p + piece_width p \<le> boardWidth pz \<and> piece_y p + piece_height p \<le> boardHeight pz)"

definition overlaps :: "Piece \<Rightarrow> Piece \<Rightarrow> bool" where
  "overlaps p q = rectOverlaps (piece_x p) (piece_y p) (piece_width p) (piece_height p) q"

fun nonOverlapping :: "Piece list \<Rightarrow> bool" where
  "nonOverlapping [] = True"
| "nonOverlapping (p # ps) = (list_all (\<lambda>q. \<not> overlaps p q) ps \<and> nonOverlapping ps)"

definition validLayout :: "Puzzle \<Rightarrow> bool" where
  "validLayout pz = (list_all (inBounds pz) (pieces pz) \<and> nonOverlapping (pieces pz))"

definition coversCell :: "Piece \<Rightarrow> int \<times> int \<Rightarrow> bool" where
  "coversCell p c =
     (piece_x p \<le> fst c \<and> fst c < piece_x p + piece_width p \<and>
      piece_y p \<le> snd c \<and> snd c < piece_y p + piece_height p)"

definition boardCells :: "Puzzle \<Rightarrow> (int \<times> int) list" where
  "boardCells pz =
     map (\<lambda>(cx, cy). (int cx, int cy))
       (List.product [0 ..< nat (boardWidth pz)] [0 ..< nat (boardHeight pz)])"

definition coveredCells :: "Puzzle \<Rightarrow> (int \<times> int) list" where
  "coveredCells pz = filter (\<lambda>c. list_ex (\<lambda>p. coversCell p c) (pieces pz)) (boardCells pz)"

section \<open>Session state machine: the handlers of \<^verbatim>\<open>App\<close>\<close>

text \<open>
  The state a handler of \<^verbatim>\<open>App\<close> reads and writes: the React states \<^verbatim>\<open>players\<close> and
  \<^verbatim>\<open>sharedState\<close>, and \<open>published\<close>, the sequence of values written under
  \<^verbatim>\<open>SHARED_GAME_STATE_KEY\<close> by \<^verbatim>\<open>saveSharedState\<close>, oldest first: every write is
  delivered to the other participants as a storage event, so each element is a
  snapshot they observe. \<^verbatim>\<open>savePlayersToStorage\<close> always stores the value just given
  to \<^verbatim>\<open>setPlayers\<close>, so \<open>players\<close> stands for both. The local view, sounds and
  rendering are not part of the model.
\<close>

record App =
  players :: Players
  sharedState :: "SharedGameState option"
  published :: "SharedGameState list"

definition saveSharedState :: "SharedGameState \<Rightarrow> App \<Rightarrow> App" where
  "saveSharedState s a = a\<lparr>published := published a @ [s]\<rparr>"

definition getSharedState :: "App \<Rightarrow> SharedGameState option" where
  "getSharedState a = (if published a = [] then None else Some (last (published a)))"

definition setSharedState :: "SharedGameState option \<Rightarrow> App \<Rightarrow> App" where
  "setSharedState s a = a\<lparr>sharedState := s\<rparr>"

definition lobbyState :: SharedGameState where
  "lobbyState = \<lparr>view = Lobby, team = [], puzzle = None, gameStartTime = None\<rparr>"

definition resetSharedState :: "App \<Rightarrow> App" where
  "resetSharedState a = saveSharedState lobbyState a"

definition handleLogin :: "string \<Rightarrow> App \<Rightarrow> App" where
  "handleLogin ident a =
     (case players a ident of
        None \<Rightarrow> a\<lparr>players := (players a)(ident \<mapsto> \<lparr>player_id = ident, streak = 0\<rparr>)\<rparr>
      | Some existingPlayer \<Rightarrow> a)"

text \<open>
  \<^verbatim>\<open>currentPlayerId\<close> is the identifier of the participant whose handler runs;
  \<^verbatim>\<open>!currentPlayerId\<close> holds for \<^verbatim>\<open>null\<close> and for the empty string.
\<close>

definition handleJoinOrLeaveTeam :: "string option \<Rightarrow> bool \<Rightarrow> App \<Rightarrow> App" where
  "handleJoinOrLeaveTeam currentPlayerId forceLeave a =
     (case (currentPlayerId, sharedState a) of
        (Some cp, Some s) \<Rightarrow>
          if cp = [] then a
          else
            (let isInTeam = (cp \<in> set (team s));
                 newTeam =
                   (if forceLeave then filter (\<lambda>pId. pId \<noteq> cp) (team s)
                    else if isInTeam then filter (\<lambda>pId. pId \<noteq> cp) (team s)
                    else team s @ [cp]);
                 newState = s\<lparr>team := newTeam\<rparr>
             in setSharedState (Some newState) (saveSharedState newState a))
      | _ \<Rightarrow> a)"

text \<open>
  \<^verbatim>\<open>handleStartGame\<close>, with the outcome of the awaited generation and the value of
  \<^verbatim>\<open>Date.now()\<close> as arguments. The \<^verbatim>\<open>sharedState\<close> it spreads is the one of the
  closure, that is, of the moment of the call.
\<close>

definition handleStartGame :: "Generated \<Rightarrow> int \<Rightarrow> App \<Rightarrow> App" where
  "handleStartGame g now a =
     (case (generatePuzzle g, sharedState a) of
        (Some generatedPuzzle, Some s) \<Rightarrow>
          (let newState = s\<lparr>puzzle := Some generatedPuzzle, view := Game,
                            gameStartTime := Some now\<rparr>
           in setSharedState (Some newState) (saveSharedState newState a))
      | _ \<Rightarrow> a)"

text \<open>The \<^verbatim>\<open>forEach\<close> bodies of \<^verbatim>\<open>handleWin\<close> and \<^verbatim>\<open>handleTimeUp\<close>.\<close>

definition incrementStreak :: "string \<Rightarrow> Players \<Rightarrow> Players" where
  "incrementStreak playerId updatedPlayers =
     (case updatedPlayers playerId of
        None \<Rightarrow> updatedPlayers
      | Some p \<Rightarrow> updatedPlayers(playerId \<mapsto> p\<lparr>streak := streak p + 1\<rparr>))"

definition resetStreak :: "string \<Rightarrow> Players \<Rightarrow> Players" where
  "resetStreak playerId updatedPlayers =
     (case updatedPlayers playerId of
        None \<Rightarrow> updatedPlayers
      | Some p \<Rightarrow> updatedPlayers(playerId \<mapsto> p\<lparr>streak := 0\<rparr>))"

definition handleWin :: "App \<Rightarrow> App" where
  "handleWin a =
     (case sharedState a of
        None \<Rightarrow> a
      | Some s \<Rightarrow>
          if view s \<noteq> Game then a
          else
            (let updatedPlayers = fold incrementStreak (team s) (players a);
                 newState = s\<lparr>view := Win\<rparr>
             in setSharedState (Some newState)
                  (saveSharedState newState (a\<lparr>players := updatedPlayers\<rparr>))))"

definition handlePuzzleChange :: "Puzzle \<Rightarrow> App \<Rightarrow> App" where
  "handlePuzzleChange newPuzzle a =
     (case sharedState a of
        None \<Rightarrow> a
      | Some s \<Rightarrow>
          (let newState = s\<lparr>puzzle := Some newPuzzle\<rparr>
           in setSharedState (Some newState) (saveSharedState newState a)))"

definition handleTimeUp :: "App \<Rightarrow> App" where
  "handleTimeUp a =
     (case sharedState a of
        None \<Rightarrow> a
      | Some s \<Rightarrow>
          if view s \<noteq> Game then a
          else
            (let updatedPlayers = fold resetStreak (team s) (players a);
                 newState = s\<lparr>view := Timesup\<rparr>
             in setSharedState (Some newState)
                  (saveSharedState newState (a\<lparr>players := updatedPlayers\<rparr>))))"

definition handleBackToLobby :: "App \<Rightarrow> App" where
  "handleBackToLobby a = (let a' = resetSharedState a in setSharedState (getSharedState a') a')"

section \<open>The screens that call the handlers\<close>

text \<open>
  \<^verbatim>\<open>renderView\<close> decides by \<^verbatim>\<open>sharedState.view\<close> which screen is mounted, and so
  which handlers a participant can reach. The routing by \<^verbatim>\<open>localView\<close> is left out:
  the predicates below are the conditions inside \<^verbatim>\<open>switch (sharedState.view)\<close>.
\<close>

definition canStartGame :: "string list \<Rightarrow> bool" where
  "canStartGame tm = (length tm \<ge> MIN_PLAYERS \<and> length tm \<le> MAX_PLAYERS)"

definition lobbyShown :: "string \<Rightarrow> App \<Rightarrow> bool" where
  "lobbyShown cp a =
     (cp \<noteq> [] \<and>
      (case sharedState a of
         None \<Rightarrow> False
       | Some s \<Rightarrow> view s = Lobby \<and> players a cp \<noteq> None))"

definition gameShown :: "App \<Rightarrow> bool" where
  "gameShown a =
     (case sharedState a of
        None \<Rightarrow> False
      | Some s \<Rightarrow>
          view s = Game \<and> puzzle s \<noteq> None \<and>
          (case gameStartTime s of None \<Rightarrow> False | Some t \<Rightarrow> t \<noteq> 0))"

text \<open>
  The start button of \<^verbatim>\<open>LobbyScreen\<close>: \<^verbatim>\<open>onClick={onStartGame}\<close> with
  \<^verbatim>\<open>disabled={!canStartGame}\<close>, so a click reaches \<^verbatim>\<open>handleStartGame\<close> only when
  \<^verbatim>\<open>canStartGame\<close> holds of the team shown.
\<close>

definition clickStartGame :: "Generated \<Rightarrow> int \<Rightarrow> App \<Rightarrow> App" where
  "clickStartGame g now a =
     (case sharedState a of
        None \<Rightarrow> a
      | Some s \<Rightarrow> if canStartGame (team s) then handleStartGame g now a else a)"

text \<open>
  The effect of \<^verbatim>\<open>GameScreen\<close> that runs \<^verbatim>\<open>checkWinCondition\<close> after a render: its
  dependencies are \<^verbatim>\<open>puzzle.pieces\<close> and the callback, which is rebuilt whenever
  \<^verbatim>\<open>puzzle\<close> or \<^verbatim>\<open>onWin\<close> changes, so it runs after every render that follows a
  change of the shared state while the game screen is mounted.
\<close>

definition gameScreenEffect :: "App \<Rightarrow> App" where
  "gameScreenEffect a =
     (if gameShown a then
        (case sharedState a of
           None \<Rightarrow> a
         | Some s \<Rightarrow>
             (case puzzle s of
                None \<Rightarrow> a
              | Some pz \<Rightarrow> if checkWinCondition pz then handleWin a else a))
      else a)"

text \<open>
  The end of a drag on the game screen: \<^verbatim>\<open>handleDragEnd\<close> on the puzzle shown, its
  \<^verbatim>\<open>onPuzzleChange\<close> being \<^verbatim>\<open>handlePuzzleChange\<close>. An exception in the handler leaves
  the state as it was.
\<close>

definition dragEnd :: "Dragging \<Rightarrow> real \<Rightarrow> real \<Rightarrow> App \<Rightarrow> App" where
  "dragEnd dragging deltaX deltaY a =
     (case sharedState a of
        None \<Rightarrow> a
      | Some s \<Rightarrow>
          (case puzzle s of
             None \<Rightarrow> a
           | Some pz \<Rightarrow>
               (case handleDragEnd pz dragging deltaX deltaY of
                  PuzzleChanged newPuzzle \<Rightarrow> handlePuzzleChange newPuzzle a
                | SnapBack \<Rightarrow> a
                | DragError \<Rightarrow> a)))"

text \<open>
  One firing of the interval of \<^verbatim>\<open>Timer\<close> at time \<open>now\<close> (milliseconds):
  \<^verbatim>\<open>elapsed = Math.floor((Date.now() - startTime) / 1000)\<close>, and \<^verbatim>\<open>onTimeUp\<close> when
  \<^verbatim>\<open>GAME_DURATION_SECONDS - elapsed <= 0\<close>.
\<close>

definition timerTick :: "int \<Rightarrow> App \<Rightarrow> App" where
  "timerTick now a =
     (if gameShown a then
        (case sharedState a of
           None \<Rightarrow> a
         | Some s \<Rightarrow>
             (case gameStartTime s of
                None \<Rightarrow> a
              | Some startTime \<Rightarrow>
                  (let elapsed = (now - startTime) div 1000;
                       newTimeLeft = GAME_DURATION_SECONDS - elapsed
                   in if newTimeLeft \<le> 0 then handleTimeUp a else a)))
      else a)"

section \<open>Runs of the session\<close>

text \<open>
  The actions of the participants on one shared state. Each action names the
  participant who performs it where the handler depends on \<^verbatim>\<open>currentPlayerId\<close>; every
  participant is taken to hold the current shared state. A run carries one players
  store. In the program each participant loads its own copy of the store when the
  application mounts and only the shared state is refreshed from the other
  participants, so the copy of the participant whose handler runs may lack the records
  of other team members: nothing proved of \<^verbatim>\<open>handleWin\<close> and \<^verbatim>\<open>handleTimeUp\<close> assumes
  that a team member has a record.
\<close>

datatype Event =
    Login string
  | JoinOrLeave string
  | Logout string
  | StartGame string Generated int
  | DragEnd Dragging real real
  | TimerTick int
  | BackToLobby

fun handleEvent :: "Event \<Rightarrow> App \<Rightarrow> App" where
  "handleEvent (Login ident) a = (if ident = [] then a else handleLogin ident a)"
| "handleEvent (JoinOrLeave cp) a =
     (if lobbyShown cp a then handleJoinOrLeaveTeam (Some cp) False a else a)"
| "handleEvent (Logout cp) a =
     (if lobbyShown cp a then handleJoinOrLeaveTeam (Some cp) True a else a)"
| "handleEvent (StartGame cp g now) a =
     (if lobbyShown cp a then clickStartGame g now a else a)"
| "handleEvent (DragEnd dragging deltaX deltaY) a =
     (if gameShown a then dragEnd dragging deltaX deltaY a else a)"
| "handleEvent (TimerTick now) a = timerTick now a"
| "handleEvent BackToLobby a =
     (case sharedState a of
        None \<Rightarrow> a
      | Some s \<Rightarrow> if view s = Win \<or> view s = Timesup then handleBackToLobby a else a)"

definition step :: "Event \<Rightarrow> App \<Rightarrow> App" where
  "step e a = gameScreenEffect (handleEvent e a)"

definition run :: "Event list \<Rightarrow> App \<Rightarrow> App" where
  "run es a = fold step es a"

text \<open>The session after \<^verbatim>\<open>resetSharedState\<close> has seeded the store, before any action.\<close>

definition initialApp :: "Players \<Rightarrow> App" where
  "initialApp ps = \<lparr>players = ps, sharedState = Some lobbyState, published = [lobbyState]\<rparr>"

section \<open>Consistency of a snapshot\<close>

text \<open>
  The puzzle and the start time are both present or both absent, and they are present
  exactly in the views that follow a start of the game.
\<close>

definition snapshotConsistent :: "SharedGameState \<Rightarrow> bool" where
  "snapshotConsistent s =
     ((puzzle s \<noteq> None) = (gameStartTime s \<noteq> None) \<and>
      (puzzle s \<noteq> None) = (view s = Game \<or> view s = Win \<or> view s = Timesup))"

text \<open>
  The state of a session is consistent when the current snapshot exists and is
  consistent, and so is every snapshot published so far.
\<close>

definition sessionInv :: "App \<Rightarrow> bool" where
  "sessionInv a =
     ((case sharedState a of None \<Rightarrow> False | Some s \<Rightarrow> snapshotConsistent s) \<and>
      list_all snapshotConsistent (published a))"

text \<open>The team of the current snapshot has no repetitions.\<close>

definition teamInv :: "App \<Rightarrow> bool" where
  "teamInv a = (case sharedState a of None \<Rightarrow> False | Some s \<Rightarrow> distinct (team s))"

text \<open>
  A snapshot past the lobby holds a team of legal size, and so does every snapshot of a
  session and of its history.
\<close>

definition legalTeamIfStarted :: "SharedGameState \<Rightarrow> bool" where
  "legalTeamIfStarted s = (view s = Lobby \<or> canStartGame (team s))"

definition startInv :: "App \<Rightarrow> bool" where
  "startInv a =
     ((case sharedState a of None \<Rightarrow> False | Some s \<Rightarrow> legalTeamIfStarted s) \<and>
      list_all legalTeamIfStarted (published a))"

section \<open>Example sessions\<close>

text \<open>
  A board with the goal piece one cell above the goal position, and a small piece with
  one free cell between it and its neighbour on the right.
\<close>

definition examplePuzzle :: Puzzle where
  "examplePuzzle =
     \<lparr>boardWidth = 4, boardHeight = 5,
      pieces =
        [\<lparr>piece_id = 1, piece_x = 1, piece_y = 2, piece_width = 2, piece_height = 2, isGoal = True\<rparr>,
         \<lparr>piece_id = 2, piece_x = 0, piece_y = 0, piece_width = 1, piece_height = 1, isGoal = False\<rparr>,
         \<lparr>piece_id = 3, piece_x = 2, piece_y = 0, piece_width = 1, piece_height = 1, isGoal = False\<rparr>],
      goalPosition = (1, 3)\<rparr>"

definition exampleGoalPiece :: Piece where
  "exampleGoalPiece =
     \<lparr>piece_id = 1, piece_x = 1, piece_y = 2, piece_width = 2, piece_height = 2, isGoal = True\<rparr>"

definition exampleSmallPiece :: Piece where
  "exampleSmallPiece =
     \<lparr>piece_id = 2, piece_x = 0, piece_y = 0, piece_width = 1, piece_height = 1, isGoal = False\<rparr>"

definition exampleSolved :: Puzzle where
  "exampleSolved =
     \<lparr>boardWidth = 4, boardHeight = 5,
      pieces =
        [\<lparr>piece_id = 1, piece_x = 1, piece_y = 3, piece_width = 2, piece_height = 2, isGoal = True\<rparr>,
         \<lparr>piece_id = 2, piece_x = 0, piece_y = 0, piece_width = 1, piece_height = 1, isGoal = False\<rparr>,
         \<lparr>piece_id = 3, piece_x = 2, piece_y = 0, piece_width = 1, piece_height = 1, isGoal = False\<rparr>],
      goalPosition = (1, 3)\<rparr>"

text \<open>Four stored players; \<open>''eli''\<close> has no record.\<close>

definition examplePlayers :: Players where
  "examplePlayers =
     [''ana'' \<mapsto> \<lparr>player_id = ''ana'', streak = 2\<rparr>,
      ''bea'' \<mapsto> \<lparr>player_id = ''bea'', streak = 1\<rparr>,
      ''caro'' \<mapsto> \<lparr>player_id = ''caro'', streak = 0\<rparr>,
      ''dani'' \<mapsto> \<lparr>player_id = ''dani'', streak = 4\<rparr>]"

definition exampleLobbySnapshot :: SharedGameState where
  "exampleLobbySnapshot =
     \<lparr>view = Lobby, team = [''ana'', ''bea''], puzzle = None, gameStartTime = None\<rparr>"

definition exampleLobby :: App where
  "exampleLobby =
     \<lparr>players = examplePlayers, sharedState = Some exampleLobbySnapshot,
      published = [lobbyState, exampleLobbySnapshot]\<rparr>"

definition exampleGameSnapshot :: SharedGameState where
  "exampleGameSnapshot =
     \<lparr>view = Game, team = [''ana'', ''bea'', ''eli''], puzzle = Some examplePuzzle,
      gameStartTime = Some 1000\<rparr>"

definition exampleGame :: App where
  "exampleGame =
     \<lparr>players = examplePlayers, sharedState = Some exampleGameSnapshot,
      published = [exampleGameSnapshot]\<rparr>"

definition exampleDrag :: Dragging where
  "exampleDrag = \<lparr>dragging_id = 1, pieceStartX = 1, pieceStartY = 2\<rparr>"

text \<open>Three players log in and join, one starts the game, and the hour runs out.\<close>

definition exampleRun :: "Event list" where
  "exampleRun =
     [Login ''ana'', Login ''bea'', Login ''caro'',
      JoinOrLeave ''ana'', JoinOrLeave ''bea'', JoinOrLeave ''caro'',
      StartGame ''ana'' GenerationFailed 1000, TimerTick 3601000]"

section \<open>The scanning loop\<close>

lemma slide_all_free:
  "(\<forall>j. i \<le> j \<and> j \<le> n \<longrightarrow> \<not> occupied (start + j * dir)) \<Longrightarrow>
   slide occupied start dir n i final = (if i \<le> n then start + n * dir else final)"
proof (induction occupied start dir n i final rule: slide.induct)
  case (1 occupied start dir n i final)
  show ?case
  proof (cases "i \<le> n")
    case True
    with "1.prems" have free: "\<not> occupied (start + i * dir)" by simp
    have "slide occupied start dir n (i + 1) (start + i * dir) =
          (if i + 1 \<le> n then start + n * dir else start + i * dir)"
      using "1.IH" [OF True refl free] "1.prems" by simp
    moreover have "i = n" if "\<not> i + 1 \<le> n" using that True by simp
    ultimately show ?thesis using True free
      by (subst slide.simps) (auto simp add: Let_def)
  next
    case False
    then show ?thesis by (subst slide.simps) simp
  qed
qed

lemma slide_blocked:
  "k < n \<Longrightarrow> (\<forall>j. i \<le> j \<and> j \<le> k \<longrightarrow> \<not> occupied (start + j * dir)) \<Longrightarrow>
   occupied (start + (k + 1) * dir) \<Longrightarrow> i \<le> k + 1 \<Longrightarrow>
   slide occupied start dir n i final = (if i \<le> k then start + k * dir else final)"
proof (induction occupied start dir n i final rule: slide.induct)
  case (1 occupied start dir n i final)
  show ?case
  proof (cases "i \<le> k")
    case True
    with "1.prems" have free: "\<not> occupied (start + i * dir)" and le: "i \<le> n" by simp_all
    have "slide occupied start dir n (i + 1) (start + i * dir) =
          (if i + 1 \<le> k then start + k * dir else start + i * dir)"
      using "1.IH" [OF le refl free] "1.prems" True by simp
    moreover have "i = k" if "\<not> i + 1 \<le> k" using that True by simp
    ultimately show ?thesis using True free le
      by (subst slide.simps) (auto simp add: Let_def)
  next
    case False
    with "1.prems" have "i = k + 1" by simp
    with "1.prems" show ?thesis by (subst slide.simps) (simp add: Let_def)
  qed
qed

lemma slide_safe:
  "slide occupied start dir n i final = final \<or>
   \<not> occupied (slide occupied start dir n i final)"
proof (induction occupied start dir n i final rule: slide.induct)
  case (1 occupied start dir n i final)
  show ?case
  proof (cases "i \<le> n \<and> \<not> occupied (start + i * dir)")
    case True
    then have "slide occupied start dir n i final =
               slide occupied start dir n (i + 1) (start + i * dir)"
      by (subst slide.simps) (simp add: Let_def)
    moreover have "slide occupied start dir n (i + 1) (start + i * dir) = start + i * dir \<or>
          \<not> occupied (slide occupied start dir n (i + 1) (start + i * dir))"
      using "1.IH" True by simp
    ultimately show ?thesis using True by auto
  next
    case False
    then have "slide occupied start dir n i final = final"
      by (subst slide.simps) (auto simp add: Let_def)
    then show ?thesis by simp
  qed
qed

lemma abs_times_sgn: "\<bar>n\<bar> * sgn n = (n::int)"
  by (simp add: abs_sgn mult.commute)

section \<open>The distance a piece travels\<close>

text \<open>
  C4. A piece is asked to move \<open>n\<close> cells along one axis (the target cell differs from
  its position by \<open>n\<close> in that coordinate only). If the cells at every offset from 1 to
  \<open>\<bar>n\<bar>\<close> in the direction \<open>sgn n\<close> are free for the piece, \<^verbatim>\<open>handleDragEnd\<close> resolves the
  move to the start plus \<open>n\<close>. If the offsets 1 to \<open>k\<close> are free, \<open>k < \<bar>n\<bar>\<close>, and the offset
  \<open>k + 1\<close> is occupied, it resolves the move to the start plus \<open>k * sgn n\<close>. Both hold for
  the horizontal and for the vertical axis; the other coordinate is unchanged.
\<close>

theorem resolveMove_travel:
  "((\<forall>i. 1 \<le> i \<and> i \<le> \<bar>n\<bar> \<longrightarrow>
        \<not> isOccupied pz (piece_x piece + i * sgn n) (piece_y piece)
            (piece_width piece) (piece_height piece) (piece_id piece)) \<longrightarrow>
    resolveMove pz piece (piece_x piece + n) (piece_y piece) = (piece_x piece + n, piece_y piece)) \<and>
   (0 \<le> k \<and> k < \<bar>n\<bar> \<and>
    (\<forall>i. 1 \<le> i \<and> i \<le> k \<longrightarrow>
        \<not> isOccupied pz (piece_x piece + i * sgn n) (piece_y piece)
            (piece_width piece) (piece_height piece) (piece_id piece)) \<and>
    isOccupied pz (piece_x piece + (k + 1) * sgn n) (piece_y piece)
        (piece_width piece) (piece_height piece) (piece_id piece) \<longrightarrow>
    resolveMove pz piece (piece_x piece + n) (piece_y piece) =
      (piece_x piece + k * sgn n, piece_y piece)) \<and>
   ((\<forall>i. 1 \<le> i \<and> i \<le> \<bar>n\<bar> \<longrightarrow>
        \<not> isOccupied pz (piece_x piece) (piece_y piece + i * sgn n)
            (piece_width piece) (piece_height piece) (piece_id piece)) \<longrightarrow>
    resolveMove pz piece (piece_x piece) (piece_y piece + n) = (piece_x piece, piece_y piece + n)) \<and>
   (0 \<le> k \<and> k < \<bar>n\<bar> \<and>
    (\<forall>i. 1 \<le> i \<and> i \<le> k \<longrightarrow>
        \<not> isOccupied pz (piece_x piece) (piece_y piece + i * sgn n)
            (piece_width piece) (piece_height piece) (piece_id piece)) \<and>
    isOccupied pz (piece_x piece) (piece_y piece + (k + 1) * sgn n)
        (piece_width piece) (piece_height piece) (piece_id piece) \<longrightarrow>
    resolveMove pz piece (piece_x piece) (piece_y piece + n) =
      (piece_x piece, piece_y piece + k * sgn n))"
proof (intro conjI impI)
  assume free: "\<forall>i. 1 \<le> i \<and> i \<le> \<bar>n\<bar> \<longrightarrow>
        \<not> isOccupied pz (piece_x piece + i * sgn n) (piece_y piece)
            (piece_width piece) (piece_height piece) (piece_id piece)"
  show "resolveMove pz piece (piece_x piece + n) (piece_y piece) = (piece_x piece + n, piece_y piece)"
  proof (cases "n = 0")
    case True
    then show ?thesis by (simp add: resolveMove_def slide.simps [of _ _ _ 0 1])
  next
    case False
    then have "1 \<le> \<bar>n\<bar>" by simp
    then show ?thesis using free False
      by (simp add: resolveMove_def slide_all_free abs_times_sgn)
  qed
next
  assume blocked: "0 \<le> k \<and> k < \<bar>n\<bar> \<and>
    (\<forall>i. 1 \<le> i \<and> i \<le> k \<longrightarrow>
        \<not> isOccupied pz (piece_x piece + i * sgn n) (piece_y piece)
            (piece_width piece) (piece_height piece) (piece_id piece)) \<and>
    isOccupied pz (piece_x piece + (k + 1) * sgn n) (piece_y piece)
        (piece_width piece) (piece_height piece) (piece_id piece)"
  then have "n \<noteq> 0" by auto
  moreover have "slide (\<lambda>nextX. isOccupied pz nextX (piece_y piece)
            (piece_width piece) (piece_height piece) (piece_id piece))
          (piece_x piece) (sgn n) \<bar>n\<bar> 1 (piece_x piece) =
        (if 1 \<le> k then piece_x piece + k * sgn n else piece_x piece)"
    using blocked by (intro slide_blocked) auto
  moreover have "k = 0" if "\<not> 1 \<le> k" using that blocked by simp
  ultimately show "resolveMove pz piece (piece_x piece + n) (piece_y piece) =
      (piece_x piece + k * sgn n, piece_y piece)"
    by (auto simp add: resolveMove_def)
next
  assume free: "\<forall>i. 1 \<le> i \<and> i \<le> \<bar>n\<bar> \<longrightarrow>
        \<not> isOccupied pz (piece_x piece) (piece_y piece + i * sgn n)
            (piece_width piece) (piece_height piece) (piece_id piece)"
  show "resolveMove pz piece (piece_x piece) (piece_y piece + n) = (piece_x piece, piece_y piece + n)"
  proof (cases "n = 0")
    case True
    then show ?thesis by (simp add: resolveMove_def slide.simps [of _ _ _ 0 1])
  next
    case False
    then have "1 \<le> \<bar>n\<bar>" by simp
    then show ?thesis using free False
      by (simp add: resolveMove_def slide_all_free abs_times_sgn)
  qed
next
  assume blocked: "0 \<le> k \<and> k < \<bar>n\<bar> \<and>
    (\<forall>i. 1 \<le> i \<and> i \<le> k \<longrightarrow>
        \<not> isOccupied pz (piece_x piece) (piece_y piece + i * sgn n)
            (piece_width piece) (piece_height piece) (piece_id piece)) \<and>
    isOccupied pz (piece_x piece) (piece_y piece + (k + 1) * sgn n)
        (piece_width piece) (piece_height piece) (piece_id piece)"
  have "slide (\<lambda>nextY. isOccupied pz (piece_x piece) nextY
            (piece_width piece) (piece_height piece) (piece_id piece))
          (piece_y piece) (sgn n) \<bar>n\<bar> 1 (piece_y piece) =
        (if 1 \<le> k then piece_y piece + k * sgn n else piece_y piece)"
    using blocked by (intro slide_blocked) auto
  moreover have "k = 0" if "\<not> 1 \<le> k" using that blocked by simp
  ultimately show "resolveMove pz piece (piece_x piece) (piece_y piece + n) =
      (piece_x piece, piece_y piece + k * sgn n)"
    by (auto simp add: resolveMove_def)
qed

lemmas board_defs = isOccupied_def rectOverlaps_def examplePuzzle_def exampleGoalPiece_def
  exampleSmallPiece_def

text \<open>
  On the example board the small piece at (0, 0), dragged three cells to the right with
  its neighbour two cells away, stops after one cell; the goal piece at (1, 2), dragged
  one cell down into free cells, arrives at (1, 3).
\<close>

theorem resolveMove_travel_witness:
  "resolveMove examplePuzzle exampleSmallPiece 3 0 = (1, 0) \<and>
   resolveMove examplePuzzle exampleGoalPiece 1 3 = (1, 3)"
proof -
  have "resolveMove examplePuzzle exampleSmallPiece 3 0 = (1, 0)"
    using resolveMove_travel [of 3 examplePuzzle exampleSmallPiece 1]
    by (simp add: board_defs)
  moreover have "resolveMove examplePuzzle exampleGoalPiece 1 3 = (1, 3)"
    using resolveMove_travel [of 1 examplePuzzle exampleGoalPiece 0]
    by (simp add: board_defs)
  ultimately show ?thesis by simp
qed

section \<open>The resolved position is free\<close>

lemma occupiedBy_iff:
  "occupiedBy ps x y w h e = (\<exists>q \<in> set ps. piece_id q \<noteq> e \<and> rectOverlaps x y w h q)"
  by (induction ps) auto

lemma overlaps_sym: "overlaps p q = overlaps q p"
  by (auto simp add: overlaps_def rectOverlaps_def)

lemma nonOverlapping_distinct_pieces:
  "nonOverlapping ps \<Longrightarrow> p \<in> set ps \<Longrightarrow> q \<in> set ps \<Longrightarrow> p \<noteq> q \<Longrightarrow> \<not> overlaps p q"
proof (induction ps)
  case Nil
  then show ?case by simp
next
  case (Cons r ps)
  from Cons.prems(1) have rest: "nonOverlapping ps" and head: "\<forall>s\<in>set ps. \<not> overlaps r s"
    by (simp_all add: list_all_iff)
  consider "p = r" "q \<in> set ps" | "q = r" "p \<in> set ps" | "p \<in> set ps" "q \<in> set ps"
    using Cons.prems by auto
  then show ?case
  proof cases
    case 1
    with head show ?thesis by simp
  next
    case 2
    with head have "\<not> overlaps q p" by simp
    then show ?thesis by (simp add: overlaps_sym)
  next
    case 3
    with Cons.IH rest Cons.prems(4) show ?thesis by simp
  qed
qed

lemma start_position_free:
  assumes "validLayout pz" and "piece \<in> set (pieces pz)"
  shows "\<not> isOccupied pz (piece_x piece) (piece_y piece)
            (piece_width piece) (piece_height piece) (piece_id piece)"
proof -
  from assms have inb: "inBounds pz piece" and no: "nonOverlapping (pieces pz)"
    by (simp_all add: validLayout_def list_all_iff)
  have "\<not> rectOverlaps (piece_x piece) (piece_y piece) (piece_width piece) (piece_height piece) q"
    if "q \<in> set (pieces pz)" "piece_id q \<noteq> piece_id piece" for q
  proof -
    from that have "piece \<noteq> q" by auto
    with no assms(2) that(1) have "\<not> overlaps piece q"
      by (rule nonOverlapping_distinct_pieces)
    then show ?thesis by (simp add: overlaps_def)
  qed
  then have "\<not> occupiedBy (pieces pz) (piece_x piece) (piece_y piece)
            (piece_width piece) (piece_height piece) (piece_id piece)"
    by (auto simp add: occupiedBy_iff)
  with inb show ?thesis by (simp add: isOccupied_def inBounds_def)
qed

lemma resolveMove_free:
  assumes "validLayout pz" and "piece \<in> set (pieces pz)"
  shows "\<not> isOccupied pz (fst (resolveMove pz piece targetX targetY))
            (snd (resolveMove pz piece targetX targetY))
            (piece_width piece) (piece_height piece) (piece_id piece)"
proof -
  note start = start_position_free [OF assms]
  show ?thesis
  proof (cases "\<bar>targetX - piece_x piece\<bar> > \<bar>targetY - piece_y piece\<bar>")
    case True
    then show ?thesis
      using start
        slide_safe [of "\<lambda>nextX. isOccupied pz nextX (piece_y piece)
                      (piece_width piece) (piece_height piece) (piece_id piece)"
          "piece_x piece" "sgn (targetX - piece_x piece)" "\<bar>targetX - piece_x piece\<bar>" 1
          "piece_x piece"]
      by (auto simp add: resolveMove_def Let_def)
  next
    case False
    then show ?thesis
      using start
        slide_safe [of "\<lambda>nextY. isOccupied pz (piece_x piece) nextY
                      (piece_width piece) (piece_height piece) (piece_id piece)"
          "piece_y piece" "sgn (targetY - piece_y piece)" "\<bar>targetY - piece_y piece\<bar>" 1
          "piece_y piece"]
      by (auto simp add: resolveMove_def Let_def)
  qed
qed

lemma find_by_id:
  "p \<in> set ps \<Longrightarrow> \<exists>piece. find (\<lambda>q. piece_id q = piece_id p) ps = Some piece \<and> piece \<in> set ps"
  by (induction ps) auto

text \<open>
  C5. In a puzzle whose pieces are within the board and do not overlap, let a drag of
  any real displacement end on a piece of the puzzle. Then \<^verbatim>\<open>handleDragEnd\<close> finds the
  piece (no error is raised), the position it resolves the drag to is not occupied for
  that piece with the piece itself excluded, and neither is the start position, the
  least the resolver returns.
\<close>

theorem handleDragEnd_position_free:
  assumes "validLayout pz" and "p \<in> set (pieces pz)" and "dragging_id dragging = piece_id p"
  shows "(\<exists>piece. find (\<lambda>q. piece_id q = dragging_id dragging) (pieces pz) = Some piece \<and>
           \<not> isOccupied pz
               (fst (resolveMove pz piece (fst (dragTarget dragging deltaX deltaY))
                                          (snd (dragTarget dragging deltaX deltaY))))
               (snd (resolveMove pz piece (fst (dragTarget dragging deltaX deltaY))
                                          (snd (dragTarget dragging deltaX deltaY))))
               (piece_width piece) (piece_height piece) (piece_id piece) \<and>
           \<not> isOccupied pz (piece_x piece) (piece_y piece)
               (piece_width piece) (piece_height piece) (piece_id piece)) \<and>
         handleDragEnd pz dragging deltaX deltaY \<noteq> DragError"
proof -
  from find_by_id [OF assms(2)] assms(3) obtain piece where
    f: "find (\<lambda>q. piece_id q = dragging_id dragging) (pieces pz) = Some piece"
    and m: "piece \<in> set (pieces pz)" by auto
  from f have "handleDragEnd pz dragging deltaX deltaY \<noteq> DragError"
    by (simp add: handleDragEnd_def Let_def split: prod.splits)
  with f resolveMove_free [OF assms(1) m] start_position_free [OF assms(1) m]
  show ?thesis by blast
qed

lemma validLayout_examplePuzzle: "validLayout examplePuzzle"
  by (simp add: validLayout_def examplePuzzle_def inBounds_def overlaps_def rectOverlaps_def)

text \<open>
  On the example board a drag of the goal piece by 2.7 cells down ends one cell down,
  the last row that keeps the piece on the board, and that position is free for it.
\<close>

theorem handleDragEnd_position_free_witness:
  "handleDragEnd examplePuzzle exampleDrag 0 (27 / 10) = PuzzleChanged exampleSolved \<and>
   \<not> isOccupied examplePuzzle 1 3 2 2 1"
proof -
  have m: "exampleGoalPiece \<in> set (pieces examplePuzzle)"
    by (simp add: examplePuzzle_def exampleGoalPiece_def)
  have d: "dragging_id exampleDrag = piece_id exampleGoalPiece"
    by (simp add: exampleDrag_def exampleGoalPiece_def)
  have "handleDragEnd examplePuzzle exampleDrag 0 (27 / 10) = PuzzleChanged exampleSolved"
    by (simp add: handleDragEnd_def dragTarget_def Math_round_def exampleDrag_def
        exampleSolved_def resolveMove_def slide.simps board_defs)
  moreover have "\<not> isOccupied examplePuzzle 1 3 2 2 1"
    using handleDragEnd_position_free [OF validLayout_examplePuzzle m d, of 0 "27 / 10"]
    by (simp add: dragTarget_def Math_round_def exampleDrag_def resolveMove_def slide.simps
        board_defs)
  ultimately show ?thesis by simp
qed

section \<open>The win check\<close>

lemma find_unique:
  "length (filter P xs) = 1 \<Longrightarrow> g \<in> set xs \<Longrightarrow> P g \<Longrightarrow> find P xs = Some g"
proof (induction xs)
  case Nil
  then show ?case by simp
next
  case (Cons x xs)
  show ?case
  proof (cases "P x")
    case True
    with Cons.prems have "filter P xs = []" by simp
    then have "\<forall>y\<in>set xs. \<not> P y" by (simp add: filter_empty_conv)
    with Cons.prems True show ?thesis by auto
  next
    case False
    with Cons show ?thesis by auto
  qed
qed

text \<open>
  C9. In a puzzle with exactly one goal piece \<open>g\<close> (whether or not its pieces overlap),
  \<^verbatim>\<open>checkWinCondition\<close> signals a win exactly when the position of \<open>g\<close> is the goal
  position, and the answer is the same for every reordering of the pieces.
\<close>

theorem checkWinCondition_goal_piece:
  assumes "length (filter isGoal (pieces pz)) = 1" and "g \<in> set (pieces pz)" and "isGoal g"
  shows "checkWinCondition pz = ((piece_x g, piece_y g) = goalPosition pz) \<and>
         (\<forall>ps. mset ps = mset (pieces pz) \<longrightarrow>
               checkWinCondition (pz\<lparr>pieces := ps\<rparr>) = checkWinCondition pz)"
proof -
  have f: "find isGoal (pieces pz) = Some g" using assms by (rule find_unique)
  have "find isGoal ps = Some g" if "mset ps = mset (pieces pz)" for ps
  proof -
    have "mset (filter isGoal ps) = mset (filter isGoal (pieces pz))"
      using that by simp
    then have "length (filter isGoal ps) = 1" using assms(1) by (metis size_mset)
    moreover have "g \<in> set ps" using that assms(2) by (metis set_mset_mset)
    ultimately show ?thesis using assms(3) by (rule find_unique)
  qed
  with f show ?thesis by (auto simp add: checkWinCondition_def prod_eq_iff)
qed

text \<open>
  The example board is not solved, in the order given and with its pieces reversed; the
  board after the goal piece has moved one cell down is solved.
\<close>

theorem checkWinCondition_goal_piece_witness:
  "\<not> checkWinCondition examplePuzzle \<and>
   \<not> checkWinCondition (examplePuzzle\<lparr>pieces := rev (pieces examplePuzzle)\<rparr>) \<and>
   checkWinCondition exampleSolved"
proof -
  have "\<not> checkWinCondition examplePuzzle \<and>
        \<not> checkWinCondition (examplePuzzle\<lparr>pieces := rev (pieces examplePuzzle)\<rparr>)"
    using checkWinCondition_goal_piece [of examplePuzzle exampleGoalPiece]
    by (simp add: examplePuzzle_def exampleGoalPiece_def)
  moreover have "checkWinCondition exampleSolved"
    using checkWinCondition_goal_piece [of exampleSolved "exampleGoalPiece\<lparr>piece_y := 3\<rparr>"]
    by (simp add: exampleSolved_def exampleGoalPiece_def)
  ultimately show ?thesis by simp
qed

section \<open>The fallback puzzle\<close>

text \<open>
  C6 (amended). The fallback puzzle is a 4 by 5 board with goal position (1, 3), exactly
  one goal piece, of size 2 by 2 at (1, 0), and nine other pieces; every piece lies
  within the board and no two overlap. The pieces cover 18 of the 20 cells: the cells
  (1, 4) and (2, 4) are empty.
\<close>

theorem fallbackPuzzle_layout:
  "boardWidth fallbackPuzzle = 4 \<and> boardHeight fallbackPuzzle = 5 \<and>
   goalPosition fallbackPuzzle = (1, 3) \<and>
   filter isGoal (pieces fallbackPuzzle) =
     [\<lparr>piece_id = 1, piece_x = 1, piece_y = 0, piece_width = 2, piece_height = 2,
       isGoal = True\<rparr>] \<and>
   length (filter (\<lambda>p. \<not> isGoal p) (pieces fallbackPuzzle)) = 9 \<and>
   validLayout fallbackPuzzle \<and>
   length (boardCells fallbackPuzzle) = 20 \<and>
   length (coveredCells fallbackPuzzle) = 18 \<and>
   filter (\<lambda>c. \<not> list_ex (\<lambda>p. coversCell p c) (pieces fallbackPuzzle))
     (boardCells fallbackPuzzle) = [(1, 4), (2, 4)]"
proof -
  have "validLayout fallbackPuzzle"
    by (simp add: validLayout_def fallbackPuzzle_def inBounds_def overlaps_def rectOverlaps_def)
  moreover have "length (boardCells fallbackPuzzle) = 20"
    by code_simp
  moreover have "length (coveredCells fallbackPuzzle) = 18"
    by code_simp
  moreover have "filter (\<lambda>c. \<not> list_ex (\<lambda>p. coversCell p c) (pieces fallbackPuzzle))
     (boardCells fallbackPuzzle) = [(1, 4), (2, 4)]"
    by code_simp
  ultimately show ?thesis by (simp add: fallbackPuzzle_def)
qed

text \<open>Fewer cells are covered than the board has.\<close>

theorem fallbackPuzzle_layout_witness:
  "length (coveredCells fallbackPuzzle) < length (boardCells fallbackPuzzle)"
  using fallbackPuzzle_layout by simp

text \<open>
  The cell (1, 4) of the board of the fallback puzzle is covered by none of its pieces,
  so the pieces do not cover all 20 cells.
\<close>

theorem fallbackPuzzle_uncovered_cell:
  "(1, 4) \<in> set (boardCells fallbackPuzzle) \<and>
   \<not> list_ex (\<lambda>p. coversCell p (1, 4)) (pieces fallbackPuzzle)"
proof -
  have "(1, 4) \<in> set (boardCells fallbackPuzzle)"
    by code_simp
  moreover have "\<not> list_ex (\<lambda>p. coversCell p (1, 4)) (pieces fallbackPuzzle)"
    by (simp add: fallbackPuzzle_def coversCell_def)
  ultimately show ?thesis by simp
qed

section \<open>Evaluation of the handlers\<close>

lemmas app_defs = handleLogin_def handleJoinOrLeaveTeam_def handleStartGame_def handleWin_def
  handlePuzzleChange_def handleTimeUp_def handleBackToLobby_def resetSharedState_def
  getSharedState_def saveSharedState_def setSharedState_def clickStartGame_def
  gameScreenEffect_def dragEnd_def timerTick_def lobbyShown_def gameShown_def canStartGame_def
  generatePuzzle_def MIN_PLAYERS_def MAX_PLAYERS_def GAME_DURATION_SECONDS_def

lemmas example_defs = exampleLobby_def exampleLobbySnapshot_def exampleGame_def
  exampleGameSnapshot_def examplePlayers_def exampleDrag_def

section \<open>Starting the game\<close>

text \<open>
  C1. In the lobby, with a team of fewer than \<open>MIN_PLAYERS = 3\<close> or more than
  \<open>MAX_PLAYERS = 5\<close> players, the start of the game is rejected as a no-op: the click on
  the start button of the lobby screen, the only caller of \<^verbatim>\<open>handleStartGame\<close>, and the
  step of the session it makes leave the whole state as it was, for every outcome of the
  puzzle generation. The view stays the lobby, and the puzzle and the start time of the
  snapshot are not touched.
\<close>

theorem start_rejected_for_illegal_team:
  assumes "sharedState a = Some s" and "view s = Lobby"
    and "length (team s) < MIN_PLAYERS \<or> MAX_PLAYERS < length (team s)"
  shows "MIN_PLAYERS = 3 \<and> MAX_PLAYERS = 5 \<and>
         clickStartGame g now a = a \<and>
         handleEvent (StartGame cp g now) a = a \<and>
         step (StartGame cp g now) a = a \<and>
         sharedState (step (StartGame cp g now) a) = Some s \<and>
         published (step (StartGame cp g now) a) = published a"
proof -
  from assms have c: "clickStartGame g now a = a"
    by (auto simp add: clickStartGame_def canStartGame_def)
  then have h: "handleEvent (StartGame cp g now) a = a" by simp
  from assms(1,2) have "gameScreenEffect a = a"
    by (simp add: gameScreenEffect_def gameShown_def)
  with h have "step (StartGame cp g now) a = a" by (simp add: step_def)
  with c h assms(1) show ?thesis by (simp add: MIN_PLAYERS_def MAX_PLAYERS_def)
qed

text \<open>
  In the example lobby the team has two players: the start by \<open>''ana''\<close> is ignored,
  whether the generation fails or not, and the snapshot is still the lobby one, without
  puzzle and start time.
\<close>

theorem start_rejected_for_illegal_team_witness:
  "step (StartGame ''ana'' GenerationFailed 1000) exampleLobby = exampleLobby \<and>
   clickStartGame (Parsed (Some examplePuzzle)) 1000 exampleLobby = exampleLobby \<and>
   sharedState (step (StartGame ''ana'' GenerationFailed 1000) exampleLobby) =
     Some \<lparr>view = Lobby, team = [''ana'', ''bea''], puzzle = None, gameStartTime = None\<rparr>"
proof -
  have s: "sharedState exampleLobby = Some exampleLobbySnapshot"
    by (simp add: exampleLobby_def)
  have v: "view exampleLobbySnapshot = Lobby"
    by (simp add: exampleLobbySnapshot_def)
  have l: "length (team exampleLobbySnapshot) < MIN_PLAYERS \<or>
           MAX_PLAYERS < length (team exampleLobbySnapshot)"
    by (simp add: exampleLobbySnapshot_def MIN_PLAYERS_def)
  have a: "step (StartGame ''ana'' GenerationFailed 1000) exampleLobby = exampleLobby"
    using start_rejected_for_illegal_team [OF s v l, of GenerationFailed 1000 "''ana''"]
    by blast
  have b: "clickStartGame (Parsed (Some examplePuzzle)) 1000 exampleLobby = exampleLobby"
    using start_rejected_for_illegal_team
      [OF s v l, of "Parsed (Some examplePuzzle)" 1000 "''ana''"]
    by blast
  from a b s show ?thesis by (simp add: exampleLobbySnapshot_def)
qed

text \<open>
  Along every run from the initial lobby snapshot, the current snapshot and every
  snapshot published on the way is a lobby snapshot or holds a team of 3 to 5 players:
  no game has been started with a team of illegal size.
\<close>

lemma startInv_publish:
  "startInv a \<Longrightarrow> legalTeamIfStarted s \<Longrightarrow>
   startInv (setSharedState (Some s) (saveSharedState s a))"
  by (simp add: startInv_def setSharedState_def saveSharedState_def)

lemma startInv_players: "startInv (a\<lparr>players := ps\<rparr>) = startInv a"
  by (simp add: startInv_def)

lemma startInv_initialApp: "startInv (initialApp ps)"
  by (simp add: startInv_def initialApp_def lobbyState_def legalTeamIfStarted_def)

lemma startInv_handleLogin: "startInv a \<Longrightarrow> startInv (handleLogin ident a)"
  by (simp add: handleLogin_def startInv_players split: option.splits)

lemma startInv_handleJoinOrLeaveTeam:
  assumes "startInv a" and "lobbyShown cp a"
  shows "startInv (handleJoinOrLeaveTeam (Some cp) forceLeave a)"
proof -
  have "startInv (setSharedState (Some (s\<lparr>team := tm\<rparr>)) (saveSharedState (s\<lparr>team := tm\<rparr>) a))"
    if "sharedState a = Some s" for s tm
  proof -
    from assms(2) that have "legalTeamIfStarted (s\<lparr>team := tm\<rparr>)"
      by (simp add: lobbyShown_def legalTeamIfStarted_def)
    with assms(1) show ?thesis by (rule startInv_publish)
  qed
  with assms(1) show ?thesis
    by (simp add: handleJoinOrLeaveTeam_def Let_def split: option.splits)
qed

lemma startInv_clickStartGame: "startInv a \<Longrightarrow> startInv (clickStartGame g now a)"
proof -
  assume inv: "startInv a"
  have "legalTeamIfStarted (s\<lparr>puzzle := Some pz, view := Game, gameStartTime := Some now\<rparr>)"
    if "canStartGame (team s)" for s pz
    using that by (simp add: legalTeamIfStarted_def)
  with inv show ?thesis
    by (simp add: clickStartGame_def handleStartGame_def Let_def startInv_publish
        split: option.splits)
qed

lemma startInv_dragEnd: "startInv a \<Longrightarrow> startInv (dragEnd dragging deltaX deltaY a)"
proof -
  assume inv: "startInv a"
  have "legalTeamIfStarted (s\<lparr>puzzle := Some newPuzzle\<rparr>)" if "sharedState a = Some s"
    for s newPuzzle
    using inv that by (simp add: startInv_def legalTeamIfStarted_def)
  with inv show ?thesis
    by (simp add: dragEnd_def handlePuzzleChange_def Let_def startInv_publish
        split: option.splits DragResult.splits)
qed

lemma startInv_handleWin: "startInv a \<Longrightarrow> startInv (handleWin a)"
proof -
  assume inv: "startInv a"
  have "legalTeamIfStarted (s\<lparr>view := Win\<rparr>)" if "sharedState a = Some s" "view s = Game" for s
    using inv that by (simp add: startInv_def legalTeamIfStarted_def)
  with inv show ?thesis
    by (simp add: handleWin_def Let_def startInv_publish startInv_players split: option.splits)
qed

lemma startInv_handleTimeUp: "startInv a \<Longrightarrow> startInv (handleTimeUp a)"
proof -
  assume inv: "startInv a"
  have "legalTeamIfStarted (s\<lparr>view := Timesup\<rparr>)" if "sharedState a = Some s" "view s = Game"
    for s
    using inv that by (simp add: startInv_def legalTeamIfStarted_def)
  with inv show ?thesis
    by (simp add: handleTimeUp_def Let_def startInv_publish startInv_players split: option.splits)
qed

lemma startInv_timerTick: "startInv a \<Longrightarrow> startInv (timerTick now a)"
  by (simp add: timerTick_def Let_def startInv_handleTimeUp split: option.splits)

lemma startInv_handleBackToLobby: "startInv a \<Longrightarrow> startInv (handleBackToLobby a)"
  by (simp add: handleBackToLobby_def resetSharedState_def getSharedState_def Let_def
      saveSharedState_def setSharedState_def startInv_def lobbyState_def legalTeamIfStarted_def)

lemma startInv_gameScreenEffect: "startInv a \<Longrightarrow> startInv (gameScreenEffect a)"
  by (simp add: gameScreenEffect_def startInv_handleWin split: option.splits)

lemma startInv_handleEvent: "startInv a \<Longrightarrow> startInv (handleEvent e a)"
  by (cases e)
    (simp_all add: startInv_handleLogin startInv_handleJoinOrLeaveTeam startInv_clickStartGame
      startInv_dragEnd startInv_timerTick startInv_handleBackToLobby split: option.splits)

lemma startInv_step: "startInv a \<Longrightarrow> startInv (step e a)"
  by (simp add: step_def startInv_gameScreenEffect startInv_handleEvent)

lemma startInv_run: "startInv (run es (initialApp ps))"
proof -
  have "startInv a \<Longrightarrow> startInv (run es a)" for a
    unfolding run_def by (induction es arbitrary: a) (simp_all add: startInv_step)
  then show ?thesis using startInv_initialApp by blast
qed

section \<open>A winning move\<close>

text \<open>
  C2 (amended). A move on the game screen that changes the puzzle into a solved one is
  published as two snapshots, one after the other: first the solved puzzle with the view
  still the game (by \<^verbatim>\<open>handlePuzzleChange\<close>), then the same snapshot with the view set
  to the win (by \<^verbatim>\<open>handleWin\<close>, called from the effect that checks the win condition
  after the render). The session ends the move in the win snapshot.
\<close>

theorem winning_move_two_snapshots:
  assumes "sharedState a = Some s" and "gameShown a" and "puzzle s = Some pz"
    and "handleDragEnd pz dragging deltaX deltaY = PuzzleChanged newPuzzle"
    and "checkWinCondition newPuzzle"
  shows "published (step (DragEnd dragging deltaX deltaY) a) =
           published a @ [s\<lparr>puzzle := Some newPuzzle\<rparr>,
                          s\<lparr>puzzle := Some newPuzzle, view := Win\<rparr>] \<and>
         sharedState (step (DragEnd dragging deltaX deltaY) a) =
           Some (s\<lparr>puzzle := Some newPuzzle, view := Win\<rparr>)"
  using assms
  by (simp add: step_def dragEnd_def handlePuzzleChange_def gameScreenEffect_def gameShown_def
      handleWin_def saveSharedState_def setSharedState_def Let_def split: option.splits)

lemma handleDragEnd_example:
  "handleDragEnd examplePuzzle exampleDrag 0 (6 / 5) = PuzzleChanged exampleSolved"
  by (simp add: handleDragEnd_def dragTarget_def Math_round_def exampleDrag_def
      exampleSolved_def resolveMove_def slide.simps board_defs)

lemma checkWinCondition_exampleSolved: "checkWinCondition exampleSolved"
  by (simp add: checkWinCondition_def exampleSolved_def)

text \<open>
  In the example game the goal piece is dragged 1.2 cells down onto the goal position:
  the session ends in the win snapshot.
\<close>

theorem winning_move_two_snapshots_witness:
  "sharedState (step (DragEnd exampleDrag 0 (6 / 5)) exampleGame) =
     Some (exampleGameSnapshot\<lparr>puzzle := Some exampleSolved, view := Win\<rparr>)"
proof -
  have s: "sharedState exampleGame = Some exampleGameSnapshot"
    by (simp add: exampleGame_def)
  have g: "gameShown exampleGame"
    by (simp add: gameShown_def exampleGame_def exampleGameSnapshot_def)
  have p: "puzzle exampleGameSnapshot = Some examplePuzzle"
    by (simp add: exampleGameSnapshot_def)
  from winning_move_two_snapshots
    [OF s g p handleDragEnd_example checkWinCondition_exampleSolved]
  show ?thesis by simp
qed

text \<open>
  The same move publishes, before the win snapshot, a snapshot that holds the solved
  puzzle while its view is still the game.
\<close>

theorem winning_move_published_while_playing:
  "published (step (DragEnd exampleDrag 0 (6 / 5)) exampleGame) =
     [exampleGameSnapshot,
      exampleGameSnapshot\<lparr>puzzle := Some exampleSolved\<rparr>,
      exampleGameSnapshot\<lparr>puzzle := Some exampleSolved, view := Win\<rparr>] \<and>
   view (exampleGameSnapshot\<lparr>puzzle := Some exampleSolved\<rparr>) = Game \<and>
   checkWinCondition exampleSolved"
  using handleDragEnd_example checkWinCondition_exampleSolved
  by (simp add: step_def app_defs example_defs Let_def)

section \<open>Streaks on a win and on expiry\<close>

lemma incrementStreak_other: "q \<noteq> playerId \<Longrightarrow> incrementStreak playerId ps q = ps q"
  by (simp add: incrementStreak_def split: option.splits)

lemma resetStreak_other: "q \<noteq> playerId \<Longrightarrow> resetStreak playerId ps q = ps q"
  by (simp add: resetStreak_def split: option.splits)

lemma fold_incrementStreak_notin:
  "q \<notin> set tm \<Longrightarrow> fold incrementStreak tm ps q = ps q"
  by (induction tm arbitrary: ps) (simp_all add: incrementStreak_other)

lemma fold_resetStreak_notin:
  "q \<notin> set tm \<Longrightarrow> fold resetStreak tm ps q = ps q"
  by (induction tm arbitrary: ps) (simp_all add: resetStreak_other)

lemma fold_incrementStreak_in:
  "distinct tm \<Longrightarrow> q \<in> set tm \<Longrightarrow> ps q = Some p \<Longrightarrow>
   fold incrementStreak tm ps q = Some (p\<lparr>streak := streak p + 1\<rparr>)"
proof (induction tm arbitrary: ps)
  case Nil
  then show ?case by simp
next
  case (Cons t tm)
  show ?case
  proof (cases "q = t")
    case True
    with Cons.prems have "q \<notin> set tm" by simp
    then have "fold incrementStreak tm (incrementStreak t ps) q = incrementStreak t ps q"
      by (rule fold_incrementStreak_notin)
    moreover have "incrementStreak t ps q = Some (p\<lparr>streak := streak p + 1\<rparr>)"
      using True Cons.prems by (simp add: incrementStreak_def)
    ultimately show ?thesis by simp
  next
    case False
    with Cons.prems have "q \<in> set tm" "distinct tm" "incrementStreak t ps q = Some p"
      by (simp_all add: incrementStreak_other)
    then show ?thesis using Cons.IH by simp
  qed
qed

lemma fold_resetStreak_in:
  "q \<in> set tm \<Longrightarrow> ps q = Some p \<Longrightarrow> fold resetStreak tm ps q = Some (p\<lparr>streak := 0\<rparr>)"
proof (induction tm arbitrary: ps p)
  case Nil
  then show ?case by simp
next
  case (Cons t tm)
  show ?case
  proof (cases "q = t")
    case True
    have r: "resetStreak t ps q = Some (p\<lparr>streak := 0\<rparr>)"
      using True Cons.prems by (simp add: resetStreak_def)
    show ?thesis
    proof (cases "q \<in> set tm")
      case True
      have "fold resetStreak tm (resetStreak t ps) q = Some (p\<lparr>streak := 0\<rparr>\<lparr>streak := 0\<rparr>)"
        using True r by (rule Cons.IH)
      then show ?thesis by simp
    next
      case False
      then show ?thesis using r by (simp add: fold_resetStreak_notin)
    qed
  next
    case False
    with Cons.prems have "q \<in> set tm" "resetStreak t ps q = Some p"
      by (simp_all add: resetStreak_other)
    then show ?thesis using Cons.IH by simp
  qed
qed

lemma dom_incrementStreak: "dom (incrementStreak t ps) = dom ps"
  by (auto simp add: incrementStreak_def split: option.splits if_splits)

lemma dom_resetStreak: "dom (resetStreak t ps) = dom ps"
  by (auto simp add: resetStreak_def split: option.splits if_splits)

lemma dom_fold_incrementStreak: "dom (fold incrementStreak tm ps) = dom ps"
  by (induction tm arbitrary: ps) (simp_all add: dom_incrementStreak)

lemma dom_fold_resetStreak: "dom (fold resetStreak tm ps) = dom ps"
  by (induction tm arbitrary: ps) (simp_all add: dom_resetStreak)

lemma players_handleWin:
  "sharedState a = Some s \<Longrightarrow> view s = Game \<Longrightarrow>
   players (handleWin a) = fold incrementStreak (team s) (players a)"
  by (simp add: handleWin_def saveSharedState_def setSharedState_def Let_def)

lemma players_handleTimeUp:
  "sharedState a = Some s \<Longrightarrow> view s = Game \<Longrightarrow>
   players (handleTimeUp a) = fold resetStreak (team s) (players a)"
  by (simp add: handleTimeUp_def saveSharedState_def setSharedState_def Let_def)

text \<open>
  Along every run from the initial lobby snapshot the team has no repetitions: a
  participant is appended to the team only when not yet in it.
\<close>

lemma teamInv_initialApp: "teamInv (initialApp ps)"
  by (simp add: teamInv_def initialApp_def lobbyState_def)

lemma teamInv_handleLogin: "teamInv a \<Longrightarrow> teamInv (handleLogin ident a)"
  by (auto simp add: teamInv_def handleLogin_def split: option.splits)

lemma teamInv_handleJoinOrLeaveTeam:
  "teamInv a \<Longrightarrow> teamInv (handleJoinOrLeaveTeam cp forceLeave a)"
  by (auto simp add: teamInv_def handleJoinOrLeaveTeam_def Let_def
      saveSharedState_def setSharedState_def split: option.splits)

lemma teamInv_clickStartGame: "teamInv a \<Longrightarrow> teamInv (clickStartGame g now a)"
  by (auto simp add: teamInv_def clickStartGame_def handleStartGame_def Let_def
      saveSharedState_def setSharedState_def split: option.splits)

lemma teamInv_dragEnd: "teamInv a \<Longrightarrow> teamInv (dragEnd dragging deltaX deltaY a)"
  by (auto simp add: teamInv_def dragEnd_def handlePuzzleChange_def Let_def
      saveSharedState_def setSharedState_def split: option.splits DragResult.splits)

lemma teamInv_handleWin: "teamInv a \<Longrightarrow> teamInv (handleWin a)"
  by (auto simp add: teamInv_def handleWin_def Let_def saveSharedState_def setSharedState_def
      dom_fold_incrementStreak split: option.splits)

lemma teamInv_handleTimeUp: "teamInv a \<Longrightarrow> teamInv (handleTimeUp a)"
  by (auto simp add: teamInv_def handleTimeUp_def Let_def saveSharedState_def setSharedState_def
      dom_fold_resetStreak split: option.splits)

lemma teamInv_timerTick: "teamInv a \<Longrightarrow> teamInv (timerTick now a)"
  by (simp add: timerTick_def Let_def teamInv_handleTimeUp split: option.splits)

lemma teamInv_handleBackToLobby: "teamInv a \<Longrightarrow> teamInv (handleBackToLobby a)"
  by (simp add: teamInv_def handleBackToLobby_def resetSharedState_def getSharedState_def
      Let_def saveSharedState_def setSharedState_def lobbyState_def)

lemma teamInv_gameScreenEffect: "teamInv a \<Longrightarrow> teamInv (gameScreenEffect a)"
  by (simp add: gameScreenEffect_def teamInv_handleWin split: option.splits)

lemma teamInv_handleEvent: "teamInv a \<Longrightarrow> teamInv (handleEvent e a)"
  by (cases e)
    (simp_all add: teamInv_handleLogin teamInv_handleJoinOrLeaveTeam teamInv_clickStartGame
      teamInv_dragEnd teamInv_timerTick teamInv_handleBackToLobby split: option.splits)

lemma teamInv_step: "teamInv a \<Longrightarrow> teamInv (step e a)"
  by (simp add: step_def teamInv_gameScreenEffect teamInv_handleEvent)

lemma teamInv_run: "teamInv (run es (initialApp ps))"
proof -
  have "teamInv a \<Longrightarrow> teamInv (run es a)" for a
    unfolding run_def by (induction es arbitrary: a) (simp_all add: teamInv_step)
  then show ?thesis using teamInv_initialApp by blast
qed

text \<open>
  C7 (amended). Let the session be in the game, with a team of unique identifiers.
  \<^verbatim>\<open>handleWin\<close> replaces the record of every team member that has a record in the
  players store of the handling participant by the same record with the streak
  increased by exactly 1, and \<^verbatim>\<open>handleTimeUp\<close> by the same record with the streak 0.
  A team member without a record there is skipped: the member has no record, and so no
  streak, afterwards either. Both leave every identifier outside the team as it was.
\<close>

theorem team_streaks_on_win_and_expiry:
  assumes "sharedState a = Some s" and "view s = Game" and "distinct (team s)"
  shows "(\<forall>playerId p. playerId \<in> set (team s) \<and> players a playerId = Some p \<longrightarrow>
            players (handleWin a) playerId = Some (p\<lparr>streak := streak p + 1\<rparr>) \<and>
            players (handleTimeUp a) playerId = Some (p\<lparr>streak := 0\<rparr>)) \<and>
         (\<forall>playerId. playerId \<in> set (team s) \<and> players a playerId = None \<longrightarrow>
            players (handleWin a) playerId = None \<and>
            players (handleTimeUp a) playerId = None) \<and>
         (\<forall>playerId. playerId \<notin> set (team s) \<longrightarrow>
            players (handleWin a) playerId = players a playerId \<and>
            players (handleTimeUp a) playerId = players a playerId)"
proof -
  have "players (handleWin a) playerId = None \<and> players (handleTimeUp a) playerId = None"
    if "players a playerId = None" for playerId
  proof -
    have "dom (players (handleWin a)) = dom (players a)"
      using assms by (simp add: players_handleWin dom_fold_incrementStreak)
    moreover have "dom (players (handleTimeUp a)) = dom (players a)"
      using assms by (simp add: players_handleTimeUp dom_fold_resetStreak)
    ultimately show ?thesis using that by (metis domIff)
  qed
  then show ?thesis
    using assms
    by (simp add: players_handleWin players_handleTimeUp fold_incrementStreak_in
        fold_resetStreak_in fold_incrementStreak_notin fold_resetStreak_notin)
qed

text \<open>
  In the example game \<open>''ana''\<close> and \<open>''bea''\<close> are in the team and \<open>''dani''\<close> is not: a
  win takes the streaks 2 and 1 to 3 and 2, expiry takes them to 0, and the streak 4
  of \<open>''dani''\<close> stays.
\<close>

theorem team_streaks_on_win_and_expiry_witness:
  "players (handleWin exampleGame) ''ana'' = Some \<lparr>player_id = ''ana'', streak = 3\<rparr> \<and>
   players (handleWin exampleGame) ''bea'' = Some \<lparr>player_id = ''bea'', streak = 2\<rparr> \<and>
   players (handleWin exampleGame) ''dani'' = Some \<lparr>player_id = ''dani'', streak = 4\<rparr> \<and>
   players (handleTimeUp exampleGame) ''ana'' = Some \<lparr>player_id = ''ana'', streak = 0\<rparr> \<and>
   players (handleTimeUp exampleGame) ''bea'' = Some \<lparr>player_id = ''bea'', streak = 0\<rparr> \<and>
   players (handleTimeUp exampleGame) ''dani'' = Some \<lparr>player_id = ''dani'', streak = 4\<rparr>"
proof -
  have s: "sharedState exampleGame = Some exampleGameSnapshot"
    by (simp add: exampleGame_def)
  have v: "view exampleGameSnapshot = Game" and d: "distinct (team exampleGameSnapshot)"
    by (simp_all add: exampleGameSnapshot_def)
  note t = team_streaks_on_win_and_expiry [OF s v d]
  have "''ana'' \<in> set (team exampleGameSnapshot) \<and>
        players exampleGame ''ana'' = Some \<lparr>player_id = ''ana'', streak = 2\<rparr>"
    by (simp add: example_defs)
  with t have ana: "players (handleWin exampleGame) ''ana'' =
      Some (\<lparr>player_id = ''ana'', streak = 2\<rparr>\<lparr>streak := streak \<lparr>player_id = ''ana'', streak = 2\<rparr> + 1\<rparr>) \<and>
      players (handleTimeUp exampleGame) ''ana'' = Some (\<lparr>player_id = ''ana'', streak = 2\<rparr>\<lparr>streak := 0\<rparr>)"
    by blast
  have "''bea'' \<in> set (team exampleGameSnapshot) \<and>
        players exampleGame ''bea'' = Some \<lparr>player_id = ''bea'', streak = 1\<rparr>"
    by (simp add: example_defs)
  with t have bea: "players (handleWin exampleGame) ''bea'' =
      Some (\<lparr>player_id = ''bea'', streak = 1\<rparr>\<lparr>streak := streak \<lparr>player_id = ''bea'', streak = 1\<rparr> + 1\<rparr>) \<and>
      players (handleTimeUp exampleGame) ''bea'' = Some (\<lparr>player_id = ''bea'', streak = 1\<rparr>\<lparr>streak := 0\<rparr>)"
    by blast
  have "''dani'' \<notin> set (team exampleGameSnapshot)"
    by (simp add: exampleGameSnapshot_def)
  with t have dani: "players (handleWin exampleGame) ''dani'' = players exampleGame ''dani'' \<and>
      players (handleTimeUp exampleGame) ''dani'' = players exampleGame ''dani''"
    by blast
  from ana bea dani show ?thesis by (simp add: exampleGame_def examplePlayers_def)
qed

text \<open>
  The example game is in the game view with the team \<open>''ana''\<close>, \<open>''bea''\<close>, \<open>''eli''\<close>, and
  the store of the handling participant has no record of \<open>''eli''\<close>. After
  \<^verbatim>\<open>handleWin\<close> the view is the win and after \<^verbatim>\<open>handleTimeUp\<close> the expiry, yet the team
  member \<open>''eli''\<close> has no streak of 1 and no streak of 0: the store, which is also what
  is saved, holds no record of \<open>''eli''\<close>.
\<close>

theorem team_member_without_record_skipped:
  "sharedState exampleGame = Some exampleGameSnapshot \<and>
   view exampleGameSnapshot = Game \<and>
   distinct (team exampleGameSnapshot) \<and>
   ''eli'' \<in> set (team exampleGameSnapshot) \<and>
   view (the (sharedState (handleWin exampleGame))) = Win \<and>
   players (handleWin exampleGame) ''eli'' = None \<and>
   view (the (sharedState (handleTimeUp exampleGame))) = Timesup \<and>
   players (handleTimeUp exampleGame) ''eli'' = None"
  by (simp add: example_defs handleWin_def handleTimeUp_def saveSharedState_def
      setSharedState_def Let_def incrementStreak_def resetStreak_def)

text \<open>
  C10. \<^verbatim>\<open>handleWin\<close> and \<^verbatim>\<open>handleTimeUp\<close> leave the set of identifiers in the players
  store as it was: an identifier without a record, in the team or not, has none
  afterwards either. A team member without a record does not stop the transition: from
  the game, the view becomes the win and the expiry.
\<close>

theorem streak_update_keeps_store_keys:
  "dom (players (handleWin a)) = dom (players a) \<and>
   dom (players (handleTimeUp a)) = dom (players a) \<and>
   (\<forall>playerId. players a playerId = None \<longrightarrow>
      players (handleWin a) playerId = None \<and> players (handleTimeUp a) playerId = None) \<and>
   (\<forall>s. sharedState a = Some s \<and> view s = Game \<longrightarrow>
      sharedState (handleWin a) = Some (s\<lparr>view := Win\<rparr>) \<and>
      sharedState (handleTimeUp a) = Some (s\<lparr>view := Timesup\<rparr>))"
proof -
  have w: "dom (players (handleWin a)) = dom (players a)"
    by (simp add: handleWin_def saveSharedState_def setSharedState_def Let_def
        dom_fold_incrementStreak split: option.splits)
  have t: "dom (players (handleTimeUp a)) = dom (players a)"
    by (simp add: handleTimeUp_def saveSharedState_def setSharedState_def Let_def
        dom_fold_resetStreak split: option.splits)
  have "players (handleWin a) playerId = None \<and> players (handleTimeUp a) playerId = None"
    if "players a playerId = None" for playerId
    using that w t by (metis domIff)
  moreover have "sharedState (handleWin a) = Some (s\<lparr>view := Win\<rparr>) \<and>
      sharedState (handleTimeUp a) = Some (s\<lparr>view := Timesup\<rparr>)"
    if "sharedState a = Some s \<and> view s = Game" for s
    using that
    by (simp add: handleWin_def handleTimeUp_def saveSharedState_def setSharedState_def Let_def)
  ultimately show ?thesis using w t by blast
qed

text \<open>
  In the example game the team member \<open>''eli''\<close> has no record: after a win and after
  expiry there is still none, and the view has changed.
\<close>

theorem streak_update_keeps_store_keys_witness:
  "''eli'' \<in> set (team exampleGameSnapshot) \<and>
   players (handleWin exampleGame) ''eli'' = None \<and>
   players (handleTimeUp exampleGame) ''eli'' = None \<and>
   sharedState (handleWin exampleGame) = Some (exampleGameSnapshot\<lparr>view := Win\<rparr>) \<and>
   sharedState (handleTimeUp exampleGame) = Some (exampleGameSnapshot\<lparr>view := Timesup\<rparr>)"
proof -
  note t = streak_update_keeps_store_keys [of exampleGame]
  have "players exampleGame ''eli'' = None"
    by (simp add: exampleGame_def examplePlayers_def)
  with t have "players (handleWin exampleGame) ''eli'' = None \<and>
      players (handleTimeUp exampleGame) ''eli'' = None"
    by blast
  moreover have "sharedState exampleGame = Some exampleGameSnapshot \<and> view exampleGameSnapshot = Game"
    by (simp add: exampleGame_def exampleGameSnapshot_def)
  with t have "sharedState (handleWin exampleGame) = Some (exampleGameSnapshot\<lparr>view := Win\<rparr>) \<and>
      sharedState (handleTimeUp exampleGame) = Some (exampleGameSnapshot\<lparr>view := Timesup\<rparr>)"
    by blast
  moreover have "''eli'' \<in> set (team exampleGameSnapshot)"
    by (simp add: exampleGameSnapshot_def)
  ultimately show ?thesis by simp
qed

section \<open>Expiry after the game has ended\<close>

text \<open>
  C8. \<^verbatim>\<open>handleTimeUp\<close> changes nothing when there is no shared state or its view is not
  the game: neither the snapshot nor any record of the players store. So a second call
  after an expiry, directly or from another firing of the timer, leaves the session as
  the first call left it.
\<close>

theorem handleTimeUp_idempotent:
  "(sharedState a = None \<longrightarrow> handleTimeUp a = a) \<and>
   (\<forall>s. sharedState a = Some s \<and> view s \<noteq> Game \<longrightarrow> handleTimeUp a = a) \<and>
   handleTimeUp (handleTimeUp a) = handleTimeUp a \<and>
   timerTick now (handleTimeUp a) = handleTimeUp a"
  by (auto simp add: handleTimeUp_def timerTick_def gameShown_def Let_def
      saveSharedState_def setSharedState_def split: option.splits)

text \<open>
  The example game once expired: the streak of \<open>''ana''\<close> is 0, and a second expiry
  returns the same session.
\<close>

theorem handleTimeUp_idempotent_witness:
  "sharedState (handleTimeUp exampleGame) = Some (exampleGameSnapshot\<lparr>view := Timesup\<rparr>) \<and>
   handleTimeUp (handleTimeUp exampleGame) = handleTimeUp exampleGame \<and>
   timerTick 7201000 (handleTimeUp exampleGame) = handleTimeUp exampleGame"
proof -
  have "sharedState (handleTimeUp exampleGame) = Some (exampleGameSnapshot\<lparr>view := Timesup\<rparr>)"
    by (simp add: handleTimeUp_def saveSharedState_def setSharedState_def Let_def
        exampleGame_def exampleGameSnapshot_def)
  moreover have "view (exampleGameSnapshot\<lparr>view := Timesup\<rparr>) \<noteq> Game"
    by simp
  ultimately show ?thesis
    using handleTimeUp_idempotent [of "handleTimeUp exampleGame" 7201000]
    by auto
qed

section \<open>Consistency of the snapshots of a run\<close>

lemma sessionInv_publish:
  "sessionInv a \<Longrightarrow> snapshotConsistent s \<Longrightarrow>
   sessionInv (setSharedState (Some s) (saveSharedState s a))"
  by (simp add: sessionInv_def setSharedState_def saveSharedState_def)

lemma sessionInv_players: "sessionInv (a\<lparr>players := ps\<rparr>) = sessionInv a"
  by (simp add: sessionInv_def)

lemma sessionInv_initialApp: "sessionInv (initialApp ps)"
  by (simp add: sessionInv_def initialApp_def lobbyState_def snapshotConsistent_def)

lemma sessionInv_handleLogin: "sessionInv a \<Longrightarrow> sessionInv (handleLogin ident a)"
  by (simp add: handleLogin_def sessionInv_players split: option.splits)

lemma sessionInv_handleJoinOrLeaveTeam:
  "sessionInv a \<Longrightarrow> sessionInv (handleJoinOrLeaveTeam cp forceLeave a)"
proof -
  assume inv: "sessionInv a"
  have "sessionInv (setSharedState (Some (s\<lparr>team := tm\<rparr>)) (saveSharedState (s\<lparr>team := tm\<rparr>) a))"
    if "sharedState a = Some s" for s tm
  proof -
    from inv that have "snapshotConsistent (s\<lparr>team := tm\<rparr>)"
      by (auto simp add: sessionInv_def snapshotConsistent_def)
    with inv show ?thesis by (rule sessionInv_publish)
  qed
  with inv show ?thesis
    by (simp add: handleJoinOrLeaveTeam_def Let_def split: option.splits)
qed

lemma sessionInv_handleStartGame: "sessionInv a \<Longrightarrow> sessionInv (handleStartGame g now a)"
proof -
  assume inv: "sessionInv a"
  have "snapshotConsistent (s\<lparr>puzzle := Some pz, view := Game, gameStartTime := Some now\<rparr>)"
    for s pz
    by (simp add: snapshotConsistent_def)
  with inv show ?thesis
    by (simp add: handleStartGame_def Let_def sessionInv_publish split: option.splits)
qed

lemma sessionInv_clickStartGame: "sessionInv a \<Longrightarrow> sessionInv (clickStartGame g now a)"
  by (simp add: clickStartGame_def sessionInv_handleStartGame split: option.splits)

lemma sessionInv_handlePuzzleChange:
  "sessionInv a \<Longrightarrow> gameShown a \<Longrightarrow> sessionInv (handlePuzzleChange newPuzzle a)"
proof -
  assume inv: "sessionInv a" and shown: "gameShown a"
  have "snapshotConsistent (s\<lparr>puzzle := Some newPuzzle\<rparr>)" if "sharedState a = Some s" for s
    using inv shown that by (auto simp add: sessionInv_def gameShown_def snapshotConsistent_def)
  with inv show ?thesis
    by (simp add: handlePuzzleChange_def Let_def sessionInv_publish split: option.splits)
qed

lemma sessionInv_dragEnd:
  "sessionInv a \<Longrightarrow> gameShown a \<Longrightarrow> sessionInv (dragEnd dragging deltaX deltaY a)"
  by (simp add: dragEnd_def sessionInv_handlePuzzleChange split: option.splits DragResult.splits)

lemma sessionInv_handleWin: "sessionInv a \<Longrightarrow> sessionInv (handleWin a)"
proof -
  assume inv: "sessionInv a"
  have "snapshotConsistent (s\<lparr>view := Win\<rparr>)" if "sharedState a = Some s" "view s = Game" for s
    using inv that by (auto simp add: sessionInv_def snapshotConsistent_def)
  with inv show ?thesis
    by (simp add: handleWin_def Let_def sessionInv_publish sessionInv_players split: option.splits)
qed

lemma sessionInv_handleTimeUp: "sessionInv a \<Longrightarrow> sessionInv (handleTimeUp a)"
proof -
  assume inv: "sessionInv a"
  have "snapshotConsistent (s\<lparr>view := Timesup\<rparr>)" if "sharedState a = Some s" "view s = Game" for s
    using inv that by (auto simp add: sessionInv_def snapshotConsistent_def)
  with inv show ?thesis
    by (simp add: handleTimeUp_def Let_def sessionInv_publish sessionInv_players split: option.splits)
qed

lemma sessionInv_timerTick: "sessionInv a \<Longrightarrow> sessionInv (timerTick now a)"
  by (simp add: timerTick_def Let_def sessionInv_handleTimeUp split: option.splits)

lemma sessionInv_handleBackToLobby: "sessionInv a \<Longrightarrow> sessionInv (handleBackToLobby a)"
  by (simp add: handleBackToLobby_def resetSharedState_def getSharedState_def Let_def
      saveSharedState_def setSharedState_def sessionInv_def lobbyState_def snapshotConsistent_def)

lemma sessionInv_gameScreenEffect: "sessionInv a \<Longrightarrow> sessionInv (gameScreenEffect a)"
  by (simp add: gameScreenEffect_def sessionInv_handleWin split: option.splits)

lemma sessionInv_handleEvent: "sessionInv a \<Longrightarrow> sessionInv (handleEvent e a)"
  by (cases e)
    (simp_all add: sessionInv_handleLogin sessionInv_handleJoinOrLeaveTeam
      sessionInv_clickStartGame sessionInv_dragEnd sessionInv_timerTick
      sessionInv_handleBackToLobby split: option.splits)

lemma sessionInv_step: "sessionInv a \<Longrightarrow> sessionInv (step e a)"
  by (simp add: step_def sessionInv_gameScreenEffect sessionInv_handleEvent)

lemma sessionInv_run: "sessionInv a \<Longrightarrow> sessionInv (run es a)"
  unfolding run_def by (induction es arbitrary: a) (simp_all add: sessionInv_step)

lemma exampleRun_result:
  "sharedState (run exampleRun (initialApp Map.empty)) =
     Some \<lparr>view = Timesup, team = [''ana'', ''bea'', ''caro''], puzzle = Some fallbackPuzzle,
           gameStartTime = Some 1000\<rparr>"
  by (simp add: run_def step_def exampleRun_def initialApp_def lobbyState_def app_defs Let_def
      checkWinCondition_def fallbackPuzzle_def)

text \<open>
  C3 (amended). After every sequence of actions from the initial lobby snapshot (logins,
  joining and leaving, a start, moves, timer firings, returns to the lobby), in the
  current snapshot and in every snapshot published on the way, the puzzle and the start
  time are both present or both absent; they are absent when the view is the lobby, and
  present when the view is the game, the win or the expiry.
\<close>

theorem run_snapshots_consistent:
  "\<exists>s. sharedState (run es (initialApp ps)) = Some s \<and> snapshotConsistent s \<and>
       list_all snapshotConsistent (published (run es (initialApp ps)))"
  using sessionInv_run [OF sessionInv_initialApp, of es ps]
  by (auto simp add: sessionInv_def split: option.splits)

text \<open>The snapshot at the end of the example run is consistent.\<close>

theorem run_snapshots_consistent_witness:
  "snapshotConsistent
     \<lparr>view = Timesup, team = [''ana'', ''bea'', ''caro''], puzzle = Some fallbackPuzzle,
      gameStartTime = Some 1000\<rparr>"
  using run_snapshots_consistent [of exampleRun Map.empty] exampleRun_result
  by auto

text \<open>
  Three players log in and join, the game starts with the fallback puzzle at time 1000,
  and the timer fires 3600 seconds later: the view of the snapshot is the expiry, and
  its puzzle and start time are still present.
\<close>

theorem expired_snapshot_keeps_puzzle:
  "sharedState (run exampleRun (initialApp Map.empty)) =
     Some \<lparr>view = Timesup, team = [''ana'', ''bea'', ''caro''], puzzle = Some fallbackPuzzle,
           gameStartTime = Some 1000\<rparr> \<and>
   puzzle \<lparr>view = Timesup, team = [''ana'', ''bea'', ''caro''], puzzle = Some fallbackPuzzle,
           gameStartTime = Some 1000\<rparr> \<noteq> None"
  using exampleRun_result by simp

end
